theory Spec2Isabelle
  imports Complex_Main "HOL-Library.AList"
begin

section \<open>Python values and dictionaries\<close>

text \<open>
  The stream frames and the REST results are decoded JSON. The store only copies the
  values of a market snapshot around, so they are kept as a small value type; \<open>JNone\<close>
  is Python's \<open>None\<close>, also what \<open>d.get(k)\<close> returns for a missing key.
\<close>

datatype jval = JNone | JInt int | JStr string

datatype py_error = TypeError | ConnectionClosed

text \<open>
  A Python \<open>dict\<close> with string keys, in insertion order. \<open>AList.update\<close> overwrites
  the value of a key that is present, in place, and appends a new key at the end, as an
  assignment \<open>d[k] = v\<close> does.
\<close>

type_synonym pydict = "(string \<times> jval) list"

definition pyget :: "pydict \<Rightarrow> string \<Rightarrow> jval" where
  "pyget d k = (case map_of d k of None \<Rightarrow> JNone | Some v \<Rightarrow> v)"

definition pyget_default :: "pydict \<Rightarrow> string \<Rightarrow> jval \<Rightarrow> jval" where
  "pyget_default d k dflt = (case map_of d k of None \<Rightarrow> dflt | Some v \<Rightarrow> v)"

definition dict_update :: "pydict \<Rightarrow> pydict \<Rightarrow> pydict" where
  "dict_update d other = fold (\<lambda>kv acc. AList.update (fst kv) (snd kv) acc) other d"

section \<open>market\_store.py: the store\<close>

text \<open>
  A price level is the two-element list \<open>[price, count]\<close>. An order book is the dict
  \<open>{"yes": ..., "no": ..., "ts": ...}\<close>: the level lists live under their side key in
  \<open>sides\<close>, the float under \<open>"ts"\<close> in \<open>ts\<close>. The handler looks a side up with the
  key the frame carries, so any string can occur as a side key; the key \<open>"ts"\<close> is the
  timestamp and never a level list.
\<close>

type_synonym level = "int \<times> int"

record orderbook =
  sides :: "string \<rightharpoonup> level list"
  ts :: real

record store =
  markets :: "string \<rightharpoonup> pydict"
  orderbooks :: "string \<rightharpoonup> orderbook"
  event_markets :: "jval \<rightharpoonup> string list"

text \<open>
  The payload \<open>msg\<close> of an \<open>orderbook_delta\<close> frame. The symbol may be missing
  (\<open>msg.get("market_ticker")\<close> is then \<open>None\<close>); side, price and delta are taken as the
  wire format has them, a string and two integers.
\<close>

record delta_msg =
  market_ticker :: "string option"
  side :: string
  price :: int
  delta :: int

text \<open>
  The \<open>for i, level in enumerate(current_book)\<close> loop of \<open>handle_orderbook_delta\<close>:
  the first level whose price equals the frame's price gets the delta added, and is
  popped when the new count is \<open>\<le> 0\<close>; the loop breaks there. \<open>None\<close> is
  \<open>found = False\<close>.
\<close>

fun update_level :: "level list \<Rightarrow> int \<Rightarrow> int \<Rightarrow> level list option" where
  "update_level [] p d = None"
| "update_level (l # ls) p d =
     (if fst l = p then
        (let new_count = snd l + d
         in if new_count \<le> 0 then Some ls else Some ((p, new_count) # ls))
      else map_option ((#) l) (update_level ls p d))"

text \<open>
  \<open>current_book.sort(key=lambda x: x[0], reverse=True)\<close>: a stable sort, descending by
  price. \<open>sort_key\<close> is a stable ascending sort, so the key is negated.
\<close>

definition sort_desc :: "level list \<Rightarrow> level list" where
  "sort_desc b = sort_key (\<lambda>x. - fst x) b"

definition apply_delta :: "level list \<Rightarrow> int \<Rightarrow> int \<Rightarrow> level list" where
  "apply_delta b p d =
     (case update_level b p d of
        Some b' \<Rightarrow> b'
      | None \<Rightarrow> if d > 0 then sort_desc (b @ [(p, d)]) else b)"

text \<open>
  \<open>handle_orderbook_delta(data)\<close>. \<open>data\<close> is the frame's \<open>msg\<close> when it has one
  (\<open>data.get("msg", {})\<close>: without one every field is missing), \<open>now\<close> the value of
  \<open>time.time()\<close>. \<open>not ticker\<close> holds for a missing symbol and for the empty string.
  Under the key \<open>"ts"\<close> the book holds a float, and \<open>enumerate\<close> of it raises
  \<open>TypeError\<close> before anything is written.
\<close>

definition handle_orderbook_delta :: "real \<Rightarrow> delta_msg option \<Rightarrow> store \<Rightarrow> py_error + store" where
  "handle_orderbook_delta now data s =
     (case data of
        None \<Rightarrow> Inr s
      | Some m \<Rightarrow>
         (case market_ticker m of
            None \<Rightarrow> Inr s
          | Some t \<Rightarrow>
             if t = [] then Inr s
             else (case orderbooks s t of
                     None \<Rightarrow> Inr s
                   | Some ob \<Rightarrow>
                      if side m = ''ts'' then Inl TypeError
                      else
                        let current_book = (case sides ob (side m) of None \<Rightarrow> [] | Some b \<Rightarrow> b);
                            current_book = apply_delta current_book (price m) (delta m)
                        in Inr (s\<lparr>orderbooks := (orderbooks s)
                                  (t \<mapsto> ob\<lparr>sides := (sides ob)(side m \<mapsto> current_book),
                                           ts := now\<rparr>)\<rparr>))))"

text \<open>
  The level list the handler would read for symbol \<open>t\<close> and side key \<open>k\<close>
  (\<open>self.orderbooks[t].get(k, [])\<close>; no book, no levels).
\<close>

definition side_of :: "store \<Rightarrow> string \<Rightarrow> string \<Rightarrow> level list" where
  "side_of s t k =
     (case orderbooks s t of
        None \<Rightarrow> []
      | Some ob \<Rightarrow> (case sides ob k of None \<Rightarrow> [] | Some b \<Rightarrow> b))"

text \<open>
  A stream of delta frames reaching the same store object, each with its clock reading.
  A frame whose handling raises leaves the store as it was (the raise comes before any
  write), and the frames after it are still applied.
\<close>

definition apply_frame :: "real \<times> delta_msg option \<Rightarrow> store \<Rightarrow> store" where
  "apply_frame f s =
     (case handle_orderbook_delta (fst f) (snd f) s of Inl e \<Rightarrow> s | Inr s' \<Rightarrow> s')"

definition run_deltas :: "(real \<times> delta_msg option) list \<Rightarrow> store \<Rightarrow> store" where
  "run_deltas fs s = fold apply_frame fs s"

text \<open>Sorted strictly descending by price, every size strictly positive.\<close>

definition side_ok :: "level list \<Rightarrow> bool" where
  "side_ok b \<longleftrightarrow> sorted_wrt (>) (map fst b) \<and> list_all (\<lambda>l. 0 < snd l) b"

definition empty_store :: store where
  "empty_store = \<lparr>markets = Map.empty, orderbooks = Map.empty, event_markets = Map.empty\<rparr>"

definition yes_no_book :: "level list \<Rightarrow> level list \<Rightarrow> real \<Rightarrow> orderbook" where
  "yes_no_book y n t = \<lparr>sides = [''yes'' \<mapsto> y, ''no'' \<mapsto> n], ts = t\<rparr>"

definition delta_frame :: "string \<Rightarrow> string \<Rightarrow> int \<Rightarrow> int \<Rightarrow> delta_msg option" where
  "delta_frame t k p d = Some \<lparr>market_ticker = Some t, side = k, price = p, delta = d\<rparr>"

definition book_store :: "string \<Rightarrow> level list \<Rightarrow> level list \<Rightarrow> store" where
  "book_store t y n = empty_store\<lparr>orderbooks := [t \<mapsto> yes_no_book y n 0]\<rparr>"

text \<open>
  The payload \<open>msg\<close> of a \<open>ticker_v2\<close> frame: the symbol under \<open>"ticker"\<close>, when
  the frame has one, and the other keys of the dict in \<open>payload\<close>.
\<close>

record ticker_msg =
  ticker :: "string option"
  payload :: pydict

text \<open>
  \<open>handle_ticker_update(data)\<close>. \<open>data\<close> is the frame's \<open>msg\<close> when it has one. A
  snapshot is created empty for a symbol the store has not seen, then \<open>dict.update\<close>
  writes the seven keys of the literal, each with \<open>msg.get(key)\<close>.
\<close>

definition handle_ticker_update :: "ticker_msg option \<Rightarrow> store \<Rightarrow> store" where
  "handle_ticker_update data s =
     (case data of
        None \<Rightarrow> s
      | Some m \<Rightarrow>
         (case ticker m of
            None \<Rightarrow> s
          | Some t \<Rightarrow>
             if t = [] then s
             else
               let snapshot = (case markets s t of None \<Rightarrow> [] | Some d \<Rightarrow> d);
                   snapshot = dict_update snapshot
                     [(''yes_bid'', pyget (payload m) ''yes_bid''),
                      (''yes_ask'', pyget (payload m) ''yes_ask''),
                      (''no_bid'', pyget (payload m) ''no_bid''),
                      (''no_ask'', pyget (payload m) ''no_ask''),
                      (''last_price'', pyget (payload m) ''last_price''),
                      (''volume'', pyget (payload m) ''volume''),
                      (''ts'', pyget (payload m) ''ts'')]
               in s\<lparr>markets := (markets s)(t \<mapsto> snapshot)\<rparr>))"

text \<open>
  What \<open>get_market_orderbook\<close> answers, when it answers: the level lists under
  \<open>"orderbook"\<close>, each missing (\<open>None\<close> here) or a list of levels. An answer that
  gives a side as JSON \<open>null\<close> is not covered: the code stores the \<open>None\<close>, and
  every later delta for that side raises \<open>TypeError\<close>.
\<close>

record rest_orderbook =
  ob_yes :: "level list option"
  ob_no :: "level list option"

text \<open>
  \<open>sync_market(ticker)\<close>, with the two REST answers and the clock reading as arguments.
  \<open>if market:\<close> fails for no answer and for an empty dict. The symbol is appended to
  the member list of its event key (\<open>market.get('event_ticker', ticker)\<close>) unless it is
  there already.
\<close>

definition sync_market ::
  "pydict option \<Rightarrow> rest_orderbook option \<Rightarrow> real \<Rightarrow> string \<Rightarrow> store \<Rightarrow> store" where
  "sync_market market orderbook now t s =
     (let s1 = (case market of
                  None \<Rightarrow> s
                | Some mk \<Rightarrow>
                   if mk = [] then s
                   else
                     let event_ticker = pyget_default mk ''event_ticker'' (JStr t);
                         members = (case event_markets s event_ticker of None \<Rightarrow> [] | Some ms \<Rightarrow> ms);
                         members = (if t \<in> set members then members else members @ [t])
                     in s\<lparr>markets := (markets s)(t \<mapsto> mk),
                          event_markets := (event_markets s)(event_ticker \<mapsto> members)\<rparr>)
      in (case orderbook of
            None \<Rightarrow> s1
          | Some ob \<Rightarrow>
             s1\<lparr>orderbooks := (orderbooks s1)
                  (t \<mapsto> \<lparr>sides = [''yes'' \<mapsto> (case ob_yes ob of None \<Rightarrow> [] | Some y \<Rightarrow> y),
                                   ''no'' \<mapsto> (case ob_no ob of None \<Rightarrow> [] | Some n \<Rightarrow> n)],
                          ts = now\<rparr>)\<rparr>))"

text \<open>
  \<open>get_market_summary(ticker)\<close>: \<open>None\<close> for an unknown symbol and for an empty
  snapshot.
\<close>

definition get_market_summary :: "store \<Rightarrow> string \<Rightarrow> pydict option" where
  "get_market_summary s t =
     (case markets s t of
        None \<Rightarrow> None
      | Some market \<Rightarrow>
         if market = [] then None
         else Some
           [(''ticker'', JStr t),
            (''event_ticker'', pyget_default market ''event_ticker'' (JStr t)),
            (''event_title'', pyget_default market ''event_title'' (JStr [])),
            (''title'', pyget_default market ''title'' (JStr [])),
            (''yes_bid'', pyget market ''yes_bid''),
            (''yes_ask'', pyget market ''yes_ask''),
            (''no_bid'', pyget market ''no_bid''),
            (''no_ask'', pyget market ''no_ask''),
            (''last_price'', pyget market ''last_price''),
            (''expiration_time'', pyget market ''expiration_time''),
            (''expiration_date'', pyget market ''expiration_date'')])"

text \<open>
  \<open>get_event_summary(event_ticker)\<close>: the summaries of the members that have one, in
  the order of the member list.
\<close>

definition get_event_summary :: "store \<Rightarrow> jval \<Rightarrow> pydict list" where
  "get_event_summary s event_ticker =
     (case event_markets s event_ticker of
        None \<Rightarrow> []
      | Some members \<Rightarrow> List.map_filter (get_market_summary s) members)"

text \<open>
  The frames the stream callbacks hand to the store, in arrival order.
\<close>

datatype stream_frame = TickerFrame "ticker_msg option" | DeltaFrame real "delta_msg option"

fun apply_stream :: "stream_frame \<Rightarrow> store \<Rightarrow> store" where
  "apply_stream (TickerFrame data) s = handle_ticker_update data s"
| "apply_stream (DeltaFrame now data) s = apply_frame (now, data) s"

definition run_stream :: "stream_frame list \<Rightarrow> store \<Rightarrow> store" where
  "run_stream fs s = fold apply_stream fs s"

text \<open>
  The stores a session can be in: the constructor's empty store, and what
  \<open>sync_market\<close> and the two stream handlers make of a store.
\<close>

inductive reachable :: "store \<Rightarrow> bool" where
  init: "reachable empty_store"
| sync: "reachable s \<Longrightarrow> reachable (sync_market market orderbook now t s)"
| stream: "reachable s \<Longrightarrow> reachable (apply_stream f s)"

text \<open>
  The keys of the dict literal in \<open>handle_ticker_update\<close>; \<open>snapshot_of\<close> is the
  snapshot the handler starts from.
\<close>

definition ticker_fields :: "string list" where
  "ticker_fields = [''yes_bid'', ''yes_ask'', ''no_bid'', ''no_ask'', ''last_price'', ''volume'', ''ts'']"

definition snapshot_of :: "store \<Rightarrow> string \<Rightarrow> pydict" where
  "snapshot_of s t = (case markets s t of None \<Rightarrow> [] | Some d \<Rightarrow> d)"

text \<open>
  Concrete frames and stores for the examples.
\<close>

definition ticker_frame :: "string \<Rightarrow> pydict \<Rightarrow> ticker_msg option" where
  "ticker_frame t p = Some \<lparr>ticker = Some t, payload = p\<rparr>"

definition market_store :: "string \<Rightarrow> pydict \<Rightarrow> store" where
  "market_store t d = sync_market (Some d) None 0 t empty_store"

definition two_events_store :: store where
  "two_events_store = market_store ''MKT'' [(''event_ticker'', JStr ''EV''), (''yes_bid'', JInt 40)]"

definition quoted_store :: store where
  "quoted_store = market_store ''MKT'' [(''title'', JStr ''Rain''), (''yes_bid'', JInt 40)]"

section \<open>kalshi\_ws\_client.py: reconnect and subscribe\<close>

text \<open>
  What the client does that the claims are about, in the order it does it: a backoff
  sleep of so many seconds, a call of \<open>websockets.connect\<close>, a subscribe command put on
  the wire (its id, channels and market tickers), and a run of \<open>stop()\<close>.
\<close>

datatype action =
    Slept int
  | ConnectAttempt
  | Subscribe int "string list" "string list"
  | Stopped

text \<open>
  The fields of \<open>KalshiWSClient\<close> the reconnect and subscribe paths use. \<open>ws\<close> is
  \<open>None\<close> as long as no connection was ever made; afterwards it holds the last transport
  object, open (\<open>Some True\<close>) or closed (\<open>Some False\<close>), and is truthy either way. A
  handler is kept as a number. \<open>trace\<close> is not a field of the class: it records the
  actions. \<open>new_client\<close> is the state \<open>__init__\<close> leaves. Names lose the leading
  underscore of the source (\<open>_reconnect_delay\<close>, \<open>_handle_reconnect\<close>).
\<close>

record ws_client =
  ws :: "bool option"
  subscriptions :: "(string \<times> string list) list"
  handlers :: "(string \<times> nat list) list"
  is_running :: bool
  reconnect_delay :: int
  max_reconnect_delay :: int
  trace :: "action list"

definition new_client :: ws_client where
  "new_client = \<lparr>ws = None, subscriptions = [], handlers = [], is_running = False,
                  reconnect_delay = 1, max_reconnect_delay = 60, trace = []\<rparr>"

definition log :: "action \<Rightarrow> ws_client \<Rightarrow> ws_client" where
  "log a c = c\<lparr>trace := trace c @ [a]\<rparr>"

text \<open>
  \<open>stop()\<close>: the flag is cleared and the transport, if there is one, is closed.
\<close>

definition stop :: "ws_client \<Rightarrow> ws_client" where
  "stop c = log Stopped (c\<lparr>is_running := False,
                             ws := (case ws c of None \<Rightarrow> None | Some opn \<Rightarrow> Some False)\<rparr>)"

text \<open>
  \<open>_resubscribe()\<close>: one subscribe command per tracked channel, in the dict's order,
  with all the symbols of the channel.
\<close>

definition resubscribe_msgs :: "int \<Rightarrow> ws_client \<Rightarrow> action list" where
  "resubscribe_msgs now c = map (\<lambda>kv. Subscribe now [fst kv] (snd kv)) (subscriptions c)"

text \<open>
  What the surroundings decide in one round of the reconnect path: whether \<open>stop()\<close>
  runs while \<open>_handle_reconnect\<close> sleeps or while \<open>connect\<close> waits for the handshake,
  how the handshake ends, and the clock reading the commands get as their id.
  \<open>Dropped k\<close> is a transport that opens and breaks after \<open>k\<close> commands of the
  resubscription, so that \<open>send\<close> raises inside the \<open>try\<close>.
\<close>

datatype connect_outcome = Accepted | Refused | Dropped nat

record round =
  stop_during_sleep :: bool
  stop_during_connect :: bool
  outcome :: connect_outcome
  clock :: int

text \<open>
  \<open>connect()\<close> and \<open>_handle_reconnect()\<close> call each other. Each call of \<open>connect\<close>
  uses up one round; with no round left the outcome is not known (\<open>None\<close>).
  On success \<open>connect\<close> starts the listener task, whose end is a later call of
  \<open>listen_failed\<close>. In the \<open>except\<close> branch the guard is \<open>if self.is_running\<close>;
  the guard of \<open>_handle_reconnect\<close> is \<open>if not self.is_running\<close>, tested before the
  sleep only. The handshake headers (\<open>_get_auth_headers\<close>, computed before the
  \<open>try\<close>) are taken to be computed without an exception.
\<close>

function connect :: "round list \<Rightarrow> ws_client \<Rightarrow> ws_client option"
  and handle_reconnect :: "round list \<Rightarrow> ws_client \<Rightarrow> ws_client option" where
  "connect [] c = None"
| "connect (r # rs) c =
     (let c = log ConnectAttempt c;
          c = (if stop_during_connect r then stop c else c)
      in case outcome r of
           Accepted \<Rightarrow>
             let c = c\<lparr>ws := Some True, is_running := True, reconnect_delay := 1\<rparr>
             in Some (c\<lparr>trace := trace c @ resubscribe_msgs (clock r) c\<rparr>)
         | Dropped k \<Rightarrow>
             let c = c\<lparr>ws := Some False, is_running := True, reconnect_delay := 1\<rparr>;
                 c = c\<lparr>trace := trace c @ take k (resubscribe_msgs (clock r) c)\<rparr>
             in if is_running c then handle_reconnect rs c else Some c
         | Refused \<Rightarrow> if is_running c then handle_reconnect rs c else Some c)"
| "handle_reconnect [] c = (if \<not> is_running c then None else Some c)"
| "handle_reconnect (r # rs) c =
     (if \<not> is_running c then
        let c = log (Slept (reconnect_delay c)) c;
            c = (if stop_during_sleep r then stop c else c);
            c = c\<lparr>reconnect_delay := min (reconnect_delay c * 2) (max_reconnect_delay c)\<rparr>
        in connect (r # rs) c
      else Some c)"
  by pat_completeness auto
termination
  by (relation "measure (\<lambda>x. case x of Inl (rs, c) \<Rightarrow> 2 * length rs
                                      | Inr (rs, c) \<Rightarrow> 2 * length rs + 1)") auto

text \<open>
  The two \<open>except\<close> branches of \<open>_listen\<close>: the transport closed, or a handler (or
  anything else) raised. Both clear the flag and call \<open>_handle_reconnect\<close>.
\<close>

datatype listen_exit = ConnectionClosedExit | ExceptionExit

definition listen_failed :: "listen_exit \<Rightarrow> round list \<Rightarrow> ws_client \<Rightarrow> ws_client option" where
  "listen_failed e rs c =
     (let c = (case e of ConnectionClosedExit \<Rightarrow> c\<lparr>ws := Some False\<rparr> | ExceptionExit \<Rightarrow> c);
          c = c\<lparr>is_running := False\<rparr>
      in handle_reconnect rs c)"

text \<open>
  \<open>subscribe(channel, tickers, handler)\<close>; \<open>now\<close> is \<open>int(time.time())\<close>. The
  result is the exception \<open>send\<close> raised on a closed transport, if it did, and the
  client as the call leaves it.
\<close>

definition subs_of :: "ws_client \<Rightarrow> string \<Rightarrow> string list" where
  "subs_of c channel = (case map_of (subscriptions c) channel of None \<Rightarrow> [] | Some l \<Rightarrow> l)"

definition subscribe ::
  "string \<Rightarrow> string list \<Rightarrow> nat \<Rightarrow> int \<Rightarrow> ws_client \<Rightarrow> py_error option \<times> ws_client" where
  "subscribe channel tickers handler now c =
     (let hs = (case map_of (handlers c) channel of None \<Rightarrow> [] | Some l \<Rightarrow> l);
          c = c\<lparr>handlers := AList.update channel (hs @ [handler]) (handlers c)\<rparr>;
          c = (if map_of (subscriptions c) channel = None
               then c\<lparr>subscriptions := AList.update channel [] (subscriptions c)\<rparr> else c);
          new_tickers = filter (\<lambda>t. t \<notin> set (subs_of c channel)) tickers
      in if new_tickers \<noteq> [] then
           let c = c\<lparr>subscriptions :=
                      AList.update channel (subs_of c channel @ new_tickers) (subscriptions c)\<rparr>
           in (case ws c of
                 None \<Rightarrow> (None, c)
               | Some opn \<Rightarrow>
                   if opn then (None, log (Subscribe now [channel] new_tickers) c)
                   else (Some ConnectionClosed, c))
         else (None, c))"

text \<open>
  Rounds and clients for the examples: \<open>connected_client\<close> is \<open>new_client\<close> after one
  accepted \<open>connect\<close>.
\<close>

definition rd :: "bool \<Rightarrow> bool \<Rightarrow> connect_outcome \<Rightarrow> int \<Rightarrow> round" where
  "rd a b out t = \<lparr>stop_during_sleep = a, stop_during_connect = b, outcome = out, clock = t\<rparr>"

definition connected_client :: ws_client where
  "connected_client = new_client\<lparr>ws := Some True, is_running := True, trace := [ConnectAttempt]\<rparr>"

definition unsubscribed :: "ws_client \<Rightarrow> string \<Rightarrow> string list \<Rightarrow> string list" where
  "unsubscribed c channel tickers = filter (\<lambda>t. t \<notin> set (subs_of c channel)) tickers"

fun is_sleep :: "action \<Rightarrow> bool" where
  "is_sleep (Slept d) = True"
| "is_sleep a = False"

section \<open>bot\_ws.py: the alert cooldown\<close>

text \<open>
  The fields of \<open>RealTimeArbitrageBot\<close> that \<open>_check_arbitrage\<close> uses. \<open>alerts\<close>
  is not a field of the class: it records each alert printed, as the key its time is
  stored under in \<open>last_alert\<close> and the clock reading. Clock readings
  (\<open>time.time()\<close>) are taken as real numbers.
\<close>

record bot =
  event_tickers :: "(string \<times> string list) list"
  last_alert :: "string \<rightharpoonup> real"
  alerts :: "(string \<times> real) list"

text \<open>
  The condition both alert paths test before they analyse (lines 157 and 182):
  \<open>key not in self.last_alert or (current_time - self.last_alert[key]) > alert_cooldown\<close>;
  and what both do when the analyser returns an opportunity.
\<close>

definition alert_cooldown :: real where
  "alert_cooldown = 30"

definition gate_open :: "(string \<rightharpoonup> real) \<Rightarrow> string \<Rightarrow> real \<Rightarrow> bool" where
  "gate_open la key current_time =
     (case la key of None \<Rightarrow> True | Some t \<Rightarrow> current_time - t > alert_cooldown)"

definition fire :: "string \<Rightarrow> real \<Rightarrow> bot \<Rightarrow> bot" where
  "fire key current_time b =
     b\<lparr>last_alert := (last_alert b)(key \<mapsto> current_time),
       alerts := alerts b @ [(key, current_time)]\<rparr>"

text \<open>
  \<open>_check_arbitrage(ticker)\<close>. The analyser (\<open>arbitrage_analyzer.py\<close>) is not among
  the sources; its two methods are arguments, any functions from a summary, or a list of
  summaries, to an optional opportunity. \<open>st\<close> is the store at the time of the call.
  The event of a ticker is the first entry of \<open>event_tickers\<close> that lists it. The
  argument \<open>ticker\<close> is \<open>tk\<close> and the list \<open>event_markets\<close> is
  \<open>event_summaries\<close> here, both names being fields of records above.
\<close>

definition check_arbitrage ::
  "(pydict \<Rightarrow> 'o option) \<Rightarrow> (pydict list \<Rightarrow> 'p option) \<Rightarrow> store \<Rightarrow> real \<Rightarrow> string option
   \<Rightarrow> bot \<Rightarrow> bot" where
  "check_arbitrage analyze_market analyze_event st current_time tk b =
     (case tk of
        None \<Rightarrow> b
      | Some t \<Rightarrow>
         if t = [] then b
         else
           let b = (case get_market_summary st t of
                      None \<Rightarrow> b
                    | Some market_summary \<Rightarrow>
                       if gate_open (last_alert b) t current_time then
                         (case analyze_market market_summary of
                            None \<Rightarrow> b
                          | Some opportunity \<Rightarrow> fire t current_time b)
                       else b)
           in (case find (\<lambda>kv. t \<in> set (snd kv)) (event_tickers b) of
                 None \<Rightarrow> b
               | Some (event_ticker, members) \<Rightarrow>
                  if event_ticker \<noteq> [] \<and> length members > 1 then
                    let event_key = ''event:'' @ event_ticker
                    in if gate_open (last_alert b) event_key current_time then
                         let event_summaries = List.map_filter (get_market_summary st) members
                         in if length event_summaries > 1 then
                              (case analyze_event event_summaries of
                                 None \<Rightarrow> b
                               | Some opportunity \<Rightarrow> fire event_key current_time b)
                            else b
                       else b
                  else b))"

text \<open>
  Calls of \<open>_check_arbitrage\<close> one after the other, each with the store and the clock
  reading it finds.
\<close>

definition run_checks ::
  "(pydict \<Rightarrow> 'o option) \<Rightarrow> (pydict list \<Rightarrow> 'p option)
   \<Rightarrow> (store \<times> real \<times> string option) list \<Rightarrow> bot \<Rightarrow> bot" where
  "run_checks analyze_market analyze_event calls b =
     fold (\<lambda>call. check_arbitrage analyze_market analyze_event (fst call) (fst (snd call))
                    (snd (snd call))) calls b"

text \<open>
  Any two alerts under the same key are more than the cooldown apart; and the invariant
  that gives it: every alert is no later than the time stored for its key.
\<close>

definition spaced :: "(string \<times> real) list \<Rightarrow> bool" where
  "spaced tr = sorted_wrt (\<lambda>a b. fst a \<noteq> fst b \<or> snd b - snd a > alert_cooldown) tr"

definition new_bot :: "(string \<times> string list) list \<Rightarrow> bot" where
  "new_bot evs = \<lparr>event_tickers = evs, last_alert = Map.empty, alerts = []\<rparr>"

definition throttle_inv :: "bot \<Rightarrow> bool" where
  "throttle_inv b \<longleftrightarrow> spaced (alerts b)
           \<and> (\<forall>a\<in>set (alerts b). \<exists>t. last_alert b (fst a) = Some t \<and> snd a \<le> t)"

text \<open>
  Analysers for the examples: one that always finds an opportunity, two that never do.
\<close>

definition always :: "pydict \<Rightarrow> unit option" where
  "always d = Some ()"

definition never :: "pydict \<Rightarrow> unit option" where
  "never d = None"

definition never_event :: "pydict list \<Rightarrow> unit option" where
  "never_event ds = None"

section \<open>Order-book sides under deltas\<close>

lemma update_level_None: "update_level b p d = None \<longleftrightarrow> p \<notin> fst ` set b"
  by (induction b) (auto simp: Let_def)

lemma update_level_keys:
  "update_level b p d = Some b' \<Longrightarrow> fst ` set b' \<subseteq> fst ` set b"
proof (induction b arbitrary: b')
  case Nil
  then show ?case by simp
next
  case (Cons l ls)
  show ?case
  proof (cases "fst l = p")
    case True
    with Cons.prems show ?thesis
      by (cases l) (auto simp: Let_def split: if_splits)
  next
    case False
    with Cons.prems obtain r where r: "update_level ls p d = Some r" and b': "b' = l # r"
      by auto
    from Cons.IH [OF r] show ?thesis unfolding b' by auto
  qed
qed

lemma update_level_ok:
  "update_level b p d = Some b' \<Longrightarrow> side_ok b \<Longrightarrow> side_ok b'"
proof (induction b arbitrary: b')
  case Nil
  then show ?case by simp
next
  case (Cons l ls)
  show ?case
  proof (cases "fst l = p")
    case True
    with Cons.prems show ?thesis
      by (cases l) (auto simp: side_ok_def Let_def split: if_splits)
  next
    case False
    with Cons.prems obtain r where r: "update_level ls p d = Some r" and b': "b' = l # r"
      by auto
    from Cons.prems(2) have "side_ok ls" by (simp add: side_ok_def)
    with Cons.IH r have "side_ok r" by blast
    moreover from update_level_keys [OF r] Cons.prems(2)
    have "\<forall>y\<in>set (map fst r). fst l > y" by (fastforce simp: side_ok_def)
    moreover from Cons.prems(2) have "0 < snd l" by (simp add: side_ok_def)
    ultimately show ?thesis unfolding b' by (simp add: side_ok_def)
  qed
qed

lemma insort_desc_strict:
  "sorted_wrt (>) (map fst (ys :: level list)) \<Longrightarrow> fst x \<notin> fst ` set ys
   \<Longrightarrow> sorted_wrt (>) (map fst (insort_key (\<lambda>x. - fst x) x ys))"
proof (induction ys)
  case Nil
  then show ?case by simp
next
  case (Cons y ys)
  then have lt: "\<forall>z\<in>set ys. fst z < fst y" and ne: "fst x \<noteq> fst y" by auto
  show ?case
  proof (cases "fst y \<le> fst x")
    case True
    with ne have "fst y < fst x" by simp
    with lt have "\<forall>z\<in>set ys. fst z < fst x" by fastforce
    moreover from True have "insort_key (\<lambda>x. - fst x) x (y # ys) = x # y # ys" by simp
    ultimately show ?thesis using Cons.prems \<open>fst y < fst x\<close> by auto
  next
    case False
    then have "insort_key (\<lambda>x. - fst x) x (y # ys) = y # insort_key (\<lambda>x. - fst x) x ys"
      by simp
    moreover from Cons have "sorted_wrt (>) (map fst (insort_key (\<lambda>x. - fst x) x ys))"
      by simp
    moreover from False lt have "\<forall>z\<in>set (insort_key (\<lambda>x. - fst x) x ys). fst z < fst y"
      by (auto simp: set_insort_key)
    ultimately show ?thesis by auto
  qed
qed

lemma sort_desc_strict:
  "distinct (map fst b) \<Longrightarrow> sorted_wrt (>) (map fst (sort_desc b))"
  unfolding sort_desc_def
  by (induction b) (auto simp: insort_desc_strict)

lemma side_ok_distinct: "side_ok b \<Longrightarrow> distinct (map fst b)"
  unfolding side_ok_def by (induction b) fastforce+

lemma apply_delta_ok: "side_ok b \<Longrightarrow> side_ok (apply_delta b p d)"
proof (cases "update_level b p d")
  case None
  assume ok: "side_ok b"
  from None have fresh: "p \<notin> fst ` set b" by (simp add: update_level_None)
  show ?thesis
  proof (cases "d > 0")
    case True
    from fresh side_ok_distinct [OF ok] have "distinct (map fst (b @ [(p, d)]))" by auto
    then have "sorted_wrt (>) (map fst (sort_desc (b @ [(p, d)])))" by (rule sort_desc_strict)
    moreover from ok True have "list_all (\<lambda>l. 0 < snd l) (sort_desc (b @ [(p, d)]))"
      by (simp add: side_ok_def sort_desc_def list_all_iff)
    ultimately show ?thesis using None True by (simp add: apply_delta_def side_ok_def)
  next
    case False
    with None ok show ?thesis by (simp add: apply_delta_def)
  qed
next
  case (Some b')
  assume "side_ok b"
  with Some show ?thesis by (simp add: apply_delta_def update_level_ok)
qed

lemma handle_delta_side_ok:
  assumes "side_ok (side_of s t k)" and "handle_orderbook_delta now data s = Inr s'"
  shows "side_ok (side_of s' t k)"
proof -
  have nil: "side_ok []" by (simp add: side_ok_def)
  from assms show ?thesis
    by (auto simp: handle_orderbook_delta_def side_of_def Let_def apply_delta_ok nil
             split: option.splits if_splits)
qed

lemma apply_frame_side_ok:
  "side_ok (side_of s t k) \<Longrightarrow> side_ok (side_of (apply_frame f s) t k)"
  by (auto simp: apply_frame_def handle_delta_side_ok split: sum.splits)

lemma run_deltas_side_ok:
  "side_ok (side_of s t k) \<Longrightarrow> side_ok (side_of (run_deltas fs s) t k)"
  unfolding run_deltas_def
  by (induction fs arbitrary: s) (auto simp: apply_frame_side_ok)

lemma filter_sort_desc: "filter P (sort_desc b) = sort_desc (filter P b)"
  by (simp add: sort_desc_def filter_sort)

lemma apply_delta_insert:
  assumes "p \<notin> fst ` set b" and "0 < d"
  shows "filter (\<lambda>l. fst l = p) (apply_delta b p d) = [(p, d)]"
    and "filter (\<lambda>l. fst l \<noteq> p) (apply_delta b p d) = sort_desc b"
proof -
  from assms have ad: "apply_delta b p d = sort_desc (b @ [(p, d)])"
    by (simp add: apply_delta_def update_level_None [THEN iffD2])
  from assms(1) have "filter (\<lambda>l. fst l = p) b = []" by (induction b) auto
  then show "filter (\<lambda>l. fst l = p) (apply_delta b p d) = [(p, d)]"
    by (simp add: ad sort_desc_def filter_sort)
  from assms(1) have "filter (\<lambda>l. fst l \<noteq> p) b = b" by (induction b) auto
  then show "filter (\<lambda>l. fst l \<noteq> p) (apply_delta b p d) = sort_desc b"
    by (simp add: ad filter_sort_desc)
qed

lemma sort_desc_sorted: "sorted_wrt (>) (map fst b) \<Longrightarrow> sort_desc b = b"
proof -
  assume "sorted_wrt (>) (map fst b)"
  then have "sorted (map (\<lambda>x. - fst x) b)"
    by (induction b) (auto simp: less_imp_le)
  then show ?thesis unfolding sort_desc_def by (rule sort_key_id_if_sorted)
qed

lemma filter_absent: "p \<notin> fst ` set b \<Longrightarrow> filter (\<lambda>l. fst l \<noteq> p) b = b"
  by (induction b) auto

lemma update_level_remove:
  assumes "distinct (map fst b)" and "(p, n) \<in> set b" and "n + d \<le> 0"
  shows "update_level b p d = Some (filter (\<lambda>l. fst l \<noteq> p) b)"
  using assms
proof (induction b)
  case Nil
  then show ?case by simp
next
  case (Cons l ls)
  show ?case
  proof (cases "fst l = p")
    case True
    with Cons.prems have l: "l = (p, n)" and fresh: "p \<notin> fst ` set ls"
      by (auto simp: image_iff)
    with Cons.prems(3) show ?thesis by (simp add: filter_absent)
  next
    case False
    with Cons show ?thesis by auto
  qed
qed

lemma apply_delta_remove:
  assumes "distinct (map fst b)" and "(p, n) \<in> set b" and "n + d \<le> 0"
  shows "apply_delta b p d = filter (\<lambda>l. fst l \<noteq> p) b"
  using update_level_remove [OF assms] by (simp add: apply_delta_def)


text \<open>
  C1. Whatever delta frames reach the store (for any symbol and any side key, at any clock
  readings), a side that starts empty, or sorted strictly descending by price with every
  size positive, stays sorted strictly descending by price, has each price at most once,
  and keeps only levels of strictly positive size.
\<close>

theorem orderbook_side_invariant:
  assumes "side_of s t k = [] \<or> side_ok (side_of s t k)"
  shows "sorted_wrt (>) (map fst (side_of (run_deltas fs s) t k))
       \<and> distinct (map fst (side_of (run_deltas fs s) t k))
       \<and> (\<forall>l\<in>set (side_of (run_deltas fs s) t k). 0 < snd l)"
proof -
  from assms have "side_ok (side_of s t k)" by (auto simp: side_ok_def)
  then have ok: "side_ok (side_of (run_deltas fs s) t k)" by (rule run_deltas_side_ok)
  from side_ok_distinct [OF ok] ok show ?thesis by (simp add: side_ok_def list_all_iff)
qed

theorem orderbook_side_invariant_witness:
  "side_of (book_store ''MKT'' [] []) ''MKT'' ''yes'' = []
   \<and> side_of (run_deltas [(1, delta_frame ''MKT'' ''yes'' 60 5), (2, delta_frame ''MKT'' ''yes'' 70 3),
          (3, delta_frame ''MKT'' ''ts'' 1 1), (4, delta_frame ''MKT'' ''yes'' 60 (- 2)),
          (5, delta_frame ''MKT'' ''yes'' 65 (- 2)), (6, delta_frame ''MKT'' ''no'' 65 2),
          (7, delta_frame ''MKT'' ''yes'' 80 1), (8, delta_frame ''MKT'' ''yes'' 80 (- 4))]
        (book_store ''MKT'' [] [])) ''MKT'' ''yes'' = [(70, 3), (60, 3)]
   \<and> sorted_wrt (>) (map fst ([(70, 3), (60, 3)] :: level list))
   \<and> distinct (map fst ([(70, 3), (60, 3)] :: level list))
   \<and> list_all (\<lambda>l. 0 < snd l) ([(70, 3), (60, 3)] :: level list)"
proof -
  have h: "side_of (book_store ''MKT'' [] []) ''MKT'' ''yes'' = []
           \<or> side_ok (side_of (book_store ''MKT'' [] []) ''MKT'' ''yes'')"
    by (simp add: side_of_def book_store_def empty_store_def yes_no_book_def)
  show ?thesis
    using orderbook_side_invariant [OF h,
        of "[(1, delta_frame ''MKT'' ''yes'' 60 5), (2, delta_frame ''MKT'' ''yes'' 70 3),
          (3, delta_frame ''MKT'' ''ts'' 1 1), (4, delta_frame ''MKT'' ''yes'' 60 (- 2)),
          (5, delta_frame ''MKT'' ''yes'' 65 (- 2)), (6, delta_frame ''MKT'' ''no'' 65 2),
          (7, delta_frame ''MKT'' ''yes'' 80 1), (8, delta_frame ''MKT'' ''yes'' 80 (- 4))]"]
    by (simp add: run_deltas_def apply_frame_def handle_orderbook_delta_def side_of_def
        book_store_def empty_store_def yes_no_book_def delta_frame_def apply_delta_def
        sort_desc_def Let_def)
qed

text \<open>
  C8. A delta frame without a symbol, or for a symbol that has no order book in the store,
  returns with the store exactly as it was: no book is created, no level and no timestamp
  changes.
\<close>

theorem delta_unknown_symbol_ignored:
  assumes "data = Some m"
    and "market_ticker m = None \<or> (\<exists>t. market_ticker m = Some t \<and> orderbooks s t = None)"
  shows "handle_orderbook_delta now data s = Inr s"
  using assms by (auto simp: handle_orderbook_delta_def)

theorem delta_unknown_symbol_ignored_witness:
  "orderbooks (book_store ''MKT'' [(60, 5)] []) ''GHOST'' = None
   \<and> handle_orderbook_delta 9 (delta_frame ''GHOST'' ''yes'' 60 5) (book_store ''MKT'' [(60, 5)] [])
       = Inr (book_store ''MKT'' [(60, 5)] [])
   \<and> handle_orderbook_delta 9 (Some \<lparr>market_ticker = None, side = ''yes'', price = 60, delta = 5\<rparr>)
         (book_store ''MKT'' [(60, 5)] [])
       = Inr (book_store ''MKT'' [(60, 5)] [])"
proof -
  have g: "orderbooks (book_store ''MKT'' [(60, 5)] []) ''GHOST'' = None"
    by (simp add: book_store_def empty_store_def)
  have h1: "market_ticker \<lparr>market_ticker = Some ''GHOST'', side = ''yes'', price = 60, delta = 5\<rparr> = None
        \<or> (\<exists>t. market_ticker \<lparr>market_ticker = Some ''GHOST'', side = ''yes'', price = 60, delta = 5\<rparr> = Some t
                 \<and> orderbooks (book_store ''MKT'' [(60, 5)] []) t = None)"
    using g by simp
  have h2: "market_ticker \<lparr>market_ticker = None, side = ''yes'', price = 60, delta = 5\<rparr> = None
        \<or> (\<exists>t. market_ticker \<lparr>market_ticker = None, side = ''yes'', price = 60, delta = 5\<rparr> = Some t
                 \<and> orderbooks (book_store ''MKT'' [(60, 5)] []) t = None)"
    by simp
  show ?thesis
    using g delta_unknown_symbol_ignored [OF refl h1, of 9]
      delta_unknown_symbol_ignored [OF refl h2, of 9]
    by (simp add: delta_frame_def)
qed

text \<open>
  C9. From an empty yes side, the delta (price 60, +5) gives exactly the level (60, 5), and
  the delta (price 60, -5) after it gives the empty side. In general a positive delta at a
  price the side does not have leaves exactly one level at that price, with the delta as
  its size, beside the levels that were there; and on a side with one level per price, a
  delta that brings a level's size to exactly 0 removes that level and nothing else.
\<close>

theorem delta_insert_then_remove:
  "apply_delta [] 60 5 = [(60, 5)]
   \<and> apply_delta [(60, 5)] 60 (- 5) = []
   \<and> side_of (run_deltas [(t1, delta_frame ''MKT'' ''yes'' 60 5)] (book_store ''MKT'' [] []))
        ''MKT'' ''yes'' = [(60, 5)]
   \<and> side_of (run_deltas [(t1, delta_frame ''MKT'' ''yes'' 60 5),
                          (t2, delta_frame ''MKT'' ''yes'' 60 (- 5))] (book_store ''MKT'' [] []))
        ''MKT'' ''yes'' = []
   \<and> (\<forall>b p d. p \<notin> fst ` set b \<and> 0 < d \<longrightarrow>
          filter (\<lambda>l. fst l = p) (apply_delta b p d) = [(p, d)]
          \<and> filter (\<lambda>l. fst l \<noteq> p) (apply_delta b p d) = sort_desc b)
   \<and> (\<forall>b p n d. distinct (map fst b) \<and> (p, n) \<in> set b \<and> n + d = 0 \<longrightarrow>
          apply_delta b p d = filter (\<lambda>l. fst l \<noteq> p) b)"
proof -
  have "apply_delta [] 60 5 = [(60, 5)]"
    by (simp add: apply_delta_def sort_desc_def)
  moreover have "apply_delta [(60, 5)] 60 (- 5) = []"
    by (simp add: apply_delta_def)
  moreover have "side_of (run_deltas [(t1, delta_frame ''MKT'' ''yes'' 60 5)]
                   (book_store ''MKT'' [] [])) ''MKT'' ''yes'' = [(60, 5)]"
    by (simp add: run_deltas_def apply_frame_def handle_orderbook_delta_def side_of_def
        book_store_def empty_store_def yes_no_book_def delta_frame_def apply_delta_def
        sort_desc_def Let_def)
  moreover have "side_of (run_deltas [(t1, delta_frame ''MKT'' ''yes'' 60 5),
                   (t2, delta_frame ''MKT'' ''yes'' 60 (- 5))] (book_store ''MKT'' [] []))
                   ''MKT'' ''yes'' = []"
    by (simp add: run_deltas_def apply_frame_def handle_orderbook_delta_def side_of_def
        book_store_def empty_store_def yes_no_book_def delta_frame_def apply_delta_def
        sort_desc_def Let_def)
  moreover have "\<forall>b p d. p \<notin> fst ` set b \<and> 0 < d \<longrightarrow>
          filter (\<lambda>l. fst l = p) (apply_delta b p d) = [(p, d)]
          \<and> filter (\<lambda>l. fst l \<noteq> p) (apply_delta b p d) = sort_desc b"
    by (simp add: apply_delta_insert)
  moreover have "\<forall>b p n d. distinct (map fst b) \<and> (p, n) \<in> set b \<and> n + d = 0 \<longrightarrow>
          apply_delta b p d = filter (\<lambda>l. fst l \<noteq> p) b"
    by (auto intro: apply_delta_remove)
  ultimately show ?thesis by blast
qed

theorem delta_insert_then_remove_witness:
  "(60 :: int) \<notin> fst ` set ([(70, 1), (50, 2)] :: level list) \<and> (0 :: int) < 5
   \<and> filter (\<lambda>l. fst l = 60) (apply_delta [(70, 1), (50, 2)] 60 5) = [(60, 5)]
   \<and> filter (\<lambda>l. fst l \<noteq> 60) (apply_delta [(70, 1), (50, 2)] 60 5) = [(70, 1), (50, 2)]
   \<and> distinct (map fst ([(70, 1), (60, 5), (50, 2)] :: level list))
   \<and> (60, 5) \<in> set ([(70, 1), (60, 5), (50, 2)] :: level list) \<and> (5 :: int) + (- 5) = 0
   \<and> apply_delta [(70, 1), (60, 5), (50, 2)] 60 (- 5) = [(70, 1), (50, 2)]"
proof -
  from delta_insert_then_remove [of 1 2]
  have ins: "\<forall>b p d. p \<notin> fst ` set b \<and> 0 < d \<longrightarrow>
          filter (\<lambda>l. fst l = p) (apply_delta b p d) = [(p, d)]
          \<and> filter (\<lambda>l. fst l \<noteq> p) (apply_delta b p d) = sort_desc b"
    and rem: "\<forall>b p n d. distinct (map fst b) \<and> (p, n) \<in> set b \<and> n + d = 0 \<longrightarrow>
          apply_delta b p d = filter (\<lambda>l. fst l \<noteq> p) b"
    by blast+
  have "filter (\<lambda>l. fst l = 60) (apply_delta [(70, 1), (50, 2)] 60 5) = [(60, 5)]
      \<and> filter (\<lambda>l. fst l \<noteq> 60) (apply_delta [(70, 1), (50, 2)] 60 5) = sort_desc [(70, 1), (50, 2)]"
    using ins [rule_format, of 60 "[(70, 1), (50, 2)]" 5] by simp
  moreover have "apply_delta [(70, 1), (60, 5), (50, 2)] 60 (- 5)
      = filter (\<lambda>l. fst l \<noteq> 60) [(70, 1), (60, 5), (50, 2)]"
    using rem [rule_format, of "[(70, 1), (60, 5), (50, 2)]" 60 5 "- 5"] by simp
  ultimately show ?thesis by (simp add: sort_desc_def)
qed

section \<open>Snapshots and the event index\<close>

lemma map_of_dict_update_other:
  "k \<notin> fst ` set other \<Longrightarrow> map_of (dict_update d other) k = map_of d k"
  unfolding dict_update_def
  by (induction other arbitrary: d) (auto simp: update_conv')

lemma handle_ticker_update_events [simp]:
  "event_markets (handle_ticker_update data s) = event_markets s"
  by (simp add: handle_ticker_update_def Let_def split: option.splits)

lemma handle_ticker_update_books [simp]:
  "orderbooks (handle_ticker_update data s) = orderbooks s"
  by (simp add: handle_ticker_update_def Let_def split: option.splits)

lemma apply_frame_events [simp]: "event_markets (apply_frame f s) = event_markets s"
  by (simp add: apply_frame_def handle_orderbook_delta_def Let_def split: option.splits sum.splits)

lemma apply_frame_markets [simp]: "markets (apply_frame f s) = markets s"
  by (simp add: apply_frame_def handle_orderbook_delta_def Let_def split: option.splits sum.splits)

lemma apply_stream_events [simp]: "event_markets (apply_stream f s) = event_markets s"
  by (cases f) simp_all

lemma run_stream_events [simp]: "event_markets (run_stream fs s) = event_markets s"
  unfolding run_stream_def by (induction fs arbitrary: s) simp_all

lemma handle_ticker_update_dom: "markets s x \<noteq> None \<Longrightarrow> markets (handle_ticker_update data s) x \<noteq> None"
  by (simp add: handle_ticker_update_def Let_def split: option.splits)

lemma apply_stream_dom: "markets s x \<noteq> None \<Longrightarrow> markets (apply_stream f s) x \<noteq> None"
  by (cases f) (simp_all add: handle_ticker_update_dom)

lemma sync_market_dom:
  "markets s x \<noteq> None \<Longrightarrow> markets (sync_market market orderbook now t s) x \<noteq> None"
  by (simp add: sync_market_def Let_def split: option.splits)

lemma sync_market_registers:
  assumes "event_markets (sync_market market orderbook now t s) e = Some ms" and "x \<in> set ms"
  shows "(\<exists>ms0. event_markets s e = Some ms0 \<and> x \<in> set ms0)
         \<or> (x = t \<and> markets (sync_market market orderbook now t s) t \<noteq> None)"
proof (cases "market = None \<or> market = Some []")
  case True
  then have "event_markets (sync_market market orderbook now t s) = event_markets s"
    by (auto simp: sync_market_def Let_def split: option.splits)
  with assms show ?thesis by simp
next
  case False
  then obtain mk where mk: "market = Some mk" "mk \<noteq> []" by auto
  define ev where "ev = pyget_default mk ''event_ticker'' (JStr t)"
  define old where "old = (case event_markets s ev of None \<Rightarrow> [] | Some ms \<Rightarrow> ms)"
  have ev': "event_markets (sync_market market orderbook now t s)
             = (event_markets s)(ev \<mapsto> (if t \<in> set old then old else old @ [t]))"
    using mk by (simp add: sync_market_def Let_def ev_def old_def split: option.splits)
  have mt: "markets (sync_market market orderbook now t s) t \<noteq> None"
    using mk by (simp add: sync_market_def Let_def split: option.splits)
  show ?thesis
  proof (cases "e = ev")
    case True
    with assms ev' have "x \<in> set old \<or> x = t" by (auto split: if_splits)
    then show ?thesis
    proof
      assume "x \<in> set old"
      then have "\<exists>ms0. event_markets s e = Some ms0 \<and> x \<in> set ms0"
        unfolding old_def True by (cases "event_markets s ev") auto
      then show ?thesis ..
    next
      assume "x = t"
      with mt show ?thesis by simp
    qed
  next
    case False
    with assms ev' show ?thesis by auto
  qed
qed

lemma reachable_members:
  "reachable s \<Longrightarrow> event_markets s e = Some ms \<Longrightarrow> x \<in> set ms \<Longrightarrow> markets s x \<noteq> None"
proof (induction arbitrary: e ms x rule: reachable.induct)
  case init
  then show ?case by (simp add: empty_store_def)
next
  case (sync s market orderbook now t)
  from sync_market_registers [OF sync.prems]
  show ?case
  proof
    assume "\<exists>ms0. event_markets s e = Some ms0 \<and> x \<in> set ms0"
    with sync.IH have "markets s x \<noteq> None" by blast
    then show ?thesis by (rule sync_market_dom)
  next
    assume "x = t \<and> markets (sync_market market orderbook now t s) t \<noteq> None"
    then show ?thesis by simp
  qed
next
  case (stream s f)
  then show ?case using apply_stream_dom [of s x f] by simp
qed

lemma summary_ticker:
  assumes "get_market_summary s t = Some d"
  shows "pyget d ''ticker'' = JStr t"
proof -
  from assms have "\<exists>rest. d = (''ticker'', JStr t) # rest"
    by (cases "markets s t") (auto simp: get_market_summary_def split: if_splits)
  then obtain rest where "d = (''ticker'', JStr t) # rest" ..
  then show ?thesis by (simp add: pyget_def)
qed

lemma set_map_filter_iff: "y \<in> set (List.map_filter f xs) \<longleftrightarrow> (\<exists>x\<in>set xs. f x = Some y)"
  by (induction xs) (auto split: option.splits)

lemma event_summary_tickers:
  assumes "d \<in> set (get_event_summary s e)"
  shows "\<exists>ms t. event_markets s e = Some ms \<and> t \<in> set ms \<and> pyget d ''ticker'' = JStr t"
proof (cases "event_markets s e")
  case None
  with assms show ?thesis by (simp add: get_event_summary_def)
next
  case (Some ms)
  with assms obtain t where "t \<in> set ms" and "get_market_summary s t = Some d"
    by (auto simp: get_event_summary_def set_map_filter_iff)
  with Some show ?thesis by (auto simp: summary_ticker)
qed

lemma sync_market_adds_member:
  assumes "market = Some mk" and "mk \<noteq> []"
  shows "\<exists>ms. event_markets (sync_market market orderbook now t s)
                (pyget_default mk ''event_ticker'' (JStr t)) = Some ms \<and> t \<in> set ms"
  using assms by (simp add: sync_market_def Let_def split: option.splits)

text \<open>
  C10. \<open>handle_ticker_update\<close> leaves the event index as it is, and so does any run of
  stream frames; \<open>sync_market\<close> is what puts a symbol into the member list of its event
  key. A symbol without a snapshot in a reachable store is in no member list, and after
  any run of stream frames (which may create its snapshot) it is still in no member list
  and no summary of \<open>get_event_summary\<close>, for any event key, is its summary.
\<close>

theorem ticker_update_keeps_event_index:
  "event_markets (handle_ticker_update data s) = event_markets s
   \<and> event_markets (run_stream fs s) = event_markets s
   \<and> (market = Some mk \<and> mk \<noteq> [] \<longrightarrow>
        (\<exists>ms. event_markets (sync_market market orderbook now t s)
                (pyget_default mk ''event_ticker'' (JStr t)) = Some ms \<and> t \<in> set ms))
   \<and> (reachable s \<and> markets s t = None \<longrightarrow>
        (\<forall>e ms. event_markets (run_stream fs s) e = Some ms \<longrightarrow> t \<notin> set ms)
        \<and> (\<forall>e. list_all (\<lambda>d. pyget d ''ticker'' \<noteq> JStr t) (get_event_summary (run_stream fs s) e)))"
proof -
  have members: "t \<notin> set ms"
    if "reachable s" "markets s t = None" "event_markets (run_stream fs s) e = Some ms" for e ms
    using reachable_members [of s e ms t] that by auto
  have "list_all (\<lambda>d. pyget d ''ticker'' \<noteq> JStr t) (get_event_summary (run_stream fs s) e)"
    if r: "reachable s" "markets s t = None" for e
    unfolding list_all_iff
  proof
    fix d assume "d \<in> set (get_event_summary (run_stream fs s) e)"
    from event_summary_tickers [OF this] obtain ms t'
      where "event_markets (run_stream fs s) e = Some ms" "t' \<in> set ms" "pyget d ''ticker'' = JStr t'"
      by blast
    with members [OF r] show "pyget d ''ticker'' \<noteq> JStr t" by auto
  qed
  with members sync_market_adds_member [of market mk orderbook now t s] show ?thesis
    by simp
qed




theorem ticker_update_keeps_event_index_witness:
  "reachable two_events_store \<and> markets two_events_store ''NEW'' = None
   \<and> get_market_summary
        (run_stream [TickerFrame (ticker_frame ''NEW'' [(''yes_bid'', JInt 7)])] two_events_store) ''NEW''
       \<noteq> None
   \<and> event_markets (run_stream [TickerFrame (ticker_frame ''NEW'' [(''yes_bid'', JInt 7)])] two_events_store)
        (JStr ''EV'') = Some [''MKT'']
   \<and> list_all (\<lambda>d. pyget d ''ticker'' \<noteq> JStr ''NEW'')
        (get_event_summary
          (run_stream [TickerFrame (ticker_frame ''NEW'' [(''yes_bid'', JInt 7)])] two_events_store)
          (JStr ''EV''))"
proof -
  have r: "reachable two_events_store"
    unfolding two_events_store_def market_store_def by (intro reachable.intros)
  have n: "markets two_events_store ''NEW'' = None"
    by (simp add: two_events_store_def market_store_def sync_market_def empty_store_def Let_def)
  have e: "event_markets two_events_store (JStr ''EV'') = Some [''MKT'']"
    by (simp add: two_events_store_def market_store_def sync_market_def empty_store_def Let_def
        pyget_default_def)
  have g: "get_market_summary
        (run_stream [TickerFrame (ticker_frame ''NEW'' [(''yes_bid'', JInt 7)])] two_events_store) ''NEW''
       \<noteq> None"
    by (simp add: run_stream_def handle_ticker_update_def ticker_frame_def get_market_summary_def
        dict_update_def Let_def n)
  from ticker_update_keeps_event_index
    [of None two_events_store "[TickerFrame (ticker_frame ''NEW'' [(''yes_bid'', JInt 7)])]"
        None "[]" None 0 "''NEW''"] r n e g
  show ?thesis by simp
qed

text \<open>
  C2, as stated, fails: a frame for \<open>MKT\<close> that carries only \<open>yes_ask\<close> turns the
  snapshot's \<open>yes_bid\<close> from 40 into \<open>None\<close>.
\<close>

theorem ticker_update_overwrites_absent_field:
  "map_of ([(''yes_ask'', JInt 45)] :: pydict) ''yes_bid'' = None
   \<and> pyget (snapshot_of quoted_store ''MKT'') ''yes_bid'' = JInt 40
   \<and> pyget (snapshot_of
         (handle_ticker_update (ticker_frame ''MKT'' [(''yes_ask'', JInt 45)]) quoted_store) ''MKT'')
        ''yes_bid'' = JNone"
  by (simp add: quoted_store_def market_store_def sync_market_def empty_store_def Let_def
      snapshot_of_def handle_ticker_update_def ticker_frame_def dict_update_def pyget_def
      pyget_default_def)

lemma map_of_ticker_fields:
  "k \<in> set ticker_fields \<Longrightarrow>
   map_of (dict_update d
     [(''yes_bid'', pyget p ''yes_bid''), (''yes_ask'', pyget p ''yes_ask''),
      (''no_bid'', pyget p ''no_bid''), (''no_ask'', pyget p ''no_ask''),
      (''last_price'', pyget p ''last_price''), (''volume'', pyget p ''volume''),
      (''ts'', pyget p ''ts'')]) k = Some (pyget p k)"
  by (auto simp: ticker_fields_def dict_update_def update_conv')

text \<open>
  C2, amended. For a frame that carries a non-empty symbol, \<open>handle_ticker_update\<close>
  writes the seven fields \<open>yes_bid\<close>, \<open>yes_ask\<close>, \<open>no_bid\<close>, \<open>no_ask\<close>,
  \<open>last_price\<close>, \<open>volume\<close> and \<open>ts\<close> of that symbol's snapshot, each with the frame's
  value for it (\<open>None\<close> when the frame does not carry it); every other field of the
  snapshot, every other symbol's snapshot, the order books and the event index keep their
  previous value.
\<close>

theorem ticker_update_merge:
  assumes "data = Some m" and "ticker m = Some t" and "t \<noteq> []"
  shows "(\<forall>k. k \<notin> set ticker_fields \<longrightarrow>
            map_of (snapshot_of (handle_ticker_update data s) t) k = map_of (snapshot_of s t) k)
       \<and> (\<forall>k\<in>set ticker_fields.
            map_of (snapshot_of (handle_ticker_update data s) t) k = Some (pyget (payload m) k))
       \<and> (\<forall>t'. t' \<noteq> t \<longrightarrow> markets (handle_ticker_update data s) t' = markets s t')
       \<and> orderbooks (handle_ticker_update data s) = orderbooks s
       \<and> event_markets (handle_ticker_update data s) = event_markets s"
proof -
  let ?upd = "[(''yes_bid'', pyget (payload m) ''yes_bid''), (''yes_ask'', pyget (payload m) ''yes_ask''),
      (''no_bid'', pyget (payload m) ''no_bid''), (''no_ask'', pyget (payload m) ''no_ask''),
      (''last_price'', pyget (payload m) ''last_price''), (''volume'', pyget (payload m) ''volume''),
      (''ts'', pyget (payload m) ''ts'')]"
  have snap: "snapshot_of (handle_ticker_update data s) t = dict_update (snapshot_of s t) ?upd"
    using assms by (simp add: handle_ticker_update_def snapshot_of_def Let_def)
  have keys: "fst ` set ?upd = set ticker_fields" by (simp add: ticker_fields_def)
  have "map_of (snapshot_of (handle_ticker_update data s) t) k = map_of (snapshot_of s t) k"
    if "k \<notin> set ticker_fields" for k
    unfolding snap using that keys by (intro map_of_dict_update_other) simp
  moreover have "map_of (snapshot_of (handle_ticker_update data s) t) k = Some (pyget (payload m) k)"
    if "k \<in> set ticker_fields" for k
    unfolding snap using that by (rule map_of_ticker_fields)
  moreover have "markets (handle_ticker_update data s) t' = markets s t'" if "t' \<noteq> t" for t'
    using assms that by (simp add: handle_ticker_update_def Let_def)
  ultimately show ?thesis by simp
qed

theorem ticker_update_merge_witness:
  "ticker_frame ''MKT'' [(''yes_ask'', JInt 45)] = Some \<lparr>ticker = Some ''MKT'', payload = [(''yes_ask'', JInt 45)]\<rparr>
   \<and> ''MKT'' \<noteq> []
   \<and> ''title'' \<notin> set ticker_fields \<and> ''yes_ask'' \<in> set ticker_fields \<and> ''yes_bid'' \<in> set ticker_fields
   \<and> map_of (snapshot_of (handle_ticker_update (ticker_frame ''MKT'' [(''yes_ask'', JInt 45)]) quoted_store) ''MKT'')
        ''title'' = Some (JStr ''Rain'')
   \<and> map_of (snapshot_of (handle_ticker_update (ticker_frame ''MKT'' [(''yes_ask'', JInt 45)]) quoted_store) ''MKT'')
        ''yes_ask'' = Some (JInt 45)
   \<and> map_of (snapshot_of (handle_ticker_update (ticker_frame ''MKT'' [(''yes_ask'', JInt 45)]) quoted_store) ''MKT'')
        ''yes_bid'' = Some JNone"
proof -
  have f: "ticker_frame ''MKT'' [(''yes_ask'', JInt 45)]
           = Some \<lparr>ticker = Some ''MKT'', payload = [(''yes_ask'', JInt 45)]\<rparr>"
    by (simp add: ticker_frame_def)
  have t: "ticker \<lparr>ticker = Some ''MKT'', payload = [(''yes_ask'', JInt 45)]\<rparr> = Some ''MKT''"
    by simp
  have n: "''MKT'' \<noteq> []" by simp
  have q: "map_of (snapshot_of quoted_store ''MKT'') ''title'' = Some (JStr ''Rain'')"
    by (simp add: quoted_store_def market_store_def sync_market_def empty_store_def Let_def
        snapshot_of_def pyget_default_def)
  from ticker_update_merge [OF f t n, of quoted_store] q f
  show ?thesis by (simp add: ticker_fields_def pyget_def)
qed

section \<open>Reconnect, stop and subscribe\<close>

lemma connect_new_client: "connect [rd False False Accepted 0] new_client = Some connected_client"
  by (simp add: rd_def new_client_def connected_client_def log_def resubscribe_msgs_def)

lemma handle_reconnect_running: "is_running c \<Longrightarrow> handle_reconnect rs c = Some c"
  by (cases rs) simp_all

text \<open>
  What holds of the backoff arithmetic: an accepted \<open>connect\<close> leaves the delay at 1,
  \<open>connect\<close> always returns when it has a round to use, and neither function takes the
  delay above the maximum.
\<close>

lemma stop_delay [simp]:
  "reconnect_delay (stop c) = reconnect_delay c" "max_reconnect_delay (stop c) = max_reconnect_delay c"
  by (simp_all add: stop_def log_def)

lemma log_delay [simp]:
  "reconnect_delay (log a c) = reconnect_delay c" "max_reconnect_delay (log a c) = max_reconnect_delay c"
  "is_running (log a c) = is_running c"
  by (simp_all add: log_def)

lemma connect_accepted_resets:
  "outcome r = Accepted \<Longrightarrow>
   \<exists>c'. connect (r # rs) c = Some c' \<and> reconnect_delay c' = 1 \<and> is_running c' \<and> ws c' = Some True"
  by (simp add: Let_def)

lemma connect_total: "\<exists>c'. connect (r # rs) c = Some c'"
  by (cases "outcome r") (simp_all add: Let_def handle_reconnect_running)

lemma connect_delay_capped:
  assumes "connect rs c = Some c'" and "1 \<le> max_reconnect_delay c"
    and "reconnect_delay c \<le> max_reconnect_delay c"
  shows "reconnect_delay c' \<le> max_reconnect_delay c' \<and> max_reconnect_delay c' = max_reconnect_delay c"
proof (cases rs)
  case Nil
  with assms show ?thesis by simp
next
  case (Cons r rs')
  define c0 where "c0 = (if stop_during_connect r then stop (log ConnectAttempt c) else log ConnectAttempt c)"
  have c0: "reconnect_delay c0 = reconnect_delay c" "max_reconnect_delay c0 = max_reconnect_delay c"
    by (simp_all add: c0_def)
  show ?thesis
  proof (cases "outcome r")
    case Accepted
    with assms(1) Cons have "reconnect_delay c' = 1 \<and> max_reconnect_delay c' = max_reconnect_delay c0"
      by (auto simp: Let_def c0_def)
    with assms(2) c0 show ?thesis by simp
  next
    case Refused
    with assms(1) Cons have "c' = c0"
      by (cases "is_running c0") (simp_all add: Let_def c0_def handle_reconnect_running)
    with assms(3) c0 show ?thesis by simp
  next
    case (Dropped k)
    with assms(1) Cons have "reconnect_delay c' = 1 \<and> max_reconnect_delay c' = max_reconnect_delay c0"
      by (auto simp: Let_def c0_def handle_reconnect_running)
    with assms(2) c0 show ?thesis by simp
  qed
qed

lemma handle_reconnect_delay_capped:
  assumes "handle_reconnect rs c = Some c'" and "1 \<le> max_reconnect_delay c"
    and "reconnect_delay c \<le> max_reconnect_delay c"
  shows "reconnect_delay c' \<le> max_reconnect_delay c' \<and> max_reconnect_delay c' = max_reconnect_delay c"
proof (cases "is_running c")
  case True
  with assms show ?thesis by (simp add: handle_reconnect_running)
next
  case False
  show ?thesis
  proof (cases rs)
    case Nil
    with assms False show ?thesis by simp
  next
    case (Cons r rs')
    define c1 where "c1 = (if stop_during_sleep r then stop (log (Slept (reconnect_delay c)) c)
                           else log (Slept (reconnect_delay c)) c)"
    define c2 where "c2 = c1\<lparr>reconnect_delay := min (reconnect_delay c1 * 2) (max_reconnect_delay c1)\<rparr>"
    from False assms(1) Cons have run: "connect (r # rs') c2 = Some c'"
      by (simp add: Let_def c1_def c2_def)
    have m: "max_reconnect_delay c2 = max_reconnect_delay c" by (simp add: c2_def c1_def)
    have d: "reconnect_delay c2 \<le> max_reconnect_delay c2" by (simp add: c2_def)
    from connect_delay_capped [OF run] m d assms(2) show ?thesis by simp
  qed
qed

text \<open>
  C5: the code gives up. A refused \<open>connect\<close> returns with one attempt made and nothing
  else (but the \<open>stop()\<close> that ran meanwhile, if one did), whatever rounds would
  follow; after a failed receive loop there is one sleep and one attempt, and a refusal
  ends the path.
\<close>

theorem refused_connect_is_not_retried:
  "connect (rd a False Refused t # rs) c = Some (log ConnectAttempt c)
   \<and> connect (rd a True Refused t # rs) c = Some (stop (log ConnectAttempt c))
   \<and> map_option trace (listen_failed e (rd False False Refused t # rs) c)
       = Some (trace c @ [Slept (reconnect_delay c), ConnectAttempt])"
proof -
  have 1: "connect (rd a False Refused t # rs) c = Some (log ConnectAttempt c)" for a c
    by (simp add: rd_def Let_def handle_reconnect_running)
  have 2: "connect (rd a True Refused t # rs) c = Some (stop (log ConnectAttempt c))"
    by (simp add: rd_def Let_def stop_def log_def)
  have "listen_failed e (rd False False Refused t # rs) c
        = connect (rd False False Refused t # rs)
            ((log (Slept (reconnect_delay c))
               ((case e of ConnectionClosedExit \<Rightarrow> c\<lparr>ws := Some False\<rparr> | ExceptionExit \<Rightarrow> c)
                 \<lparr>is_running := False\<rparr>))
              \<lparr>reconnect_delay := min (reconnect_delay c * 2) (max_reconnect_delay c)\<rparr>)"
    by (cases e) (simp_all add: listen_failed_def Let_def rd_def log_def)
  then have "map_option trace (listen_failed e (rd False False Refused t # rs) c)
        = Some (trace c @ [Slept (reconnect_delay c), ConnectAttempt])"
    unfolding 1 by (cases e) (simp_all add: log_def)
  with 1 2 show ?thesis by simp
qed

text \<open>
  C3: the delay on consecutive failures. A refused first \<open>connect\<close> leaves the delay
  at 1; a failed receive loop followed by a refused \<open>connect\<close> leaves it at 2, after a
  single sleep of 1, whatever rounds would follow.
\<close>

theorem backoff_ends_after_second_failure:
  "map_option reconnect_delay (connect (rd a False Refused t # rs) new_client) = Some 1
   \<and> map_option reconnect_delay
        (listen_failed e (rd False False Refused t # rs) connected_client) = Some 2
   \<and> map_option (\<lambda>c. filter is_sleep (trace c))
        (listen_failed e (rd False False Refused t # rs) connected_client) = Some [Slept 1]"
  by (cases e)
     (simp_all add: rd_def listen_failed_def Let_def log_def new_client_def connected_client_def
        handle_reconnect_running)

text \<open>
  C4: \<open>stop()\<close> during the backoff sleep. The sleep ends, \<open>connect\<close> is called and
  accepted, and the client is running again on a new transport. A second \<open>stop()\<close>
  changes no field of the client.
\<close>

theorem reconnects_after_stop:
  "listen_failed ConnectionClosedExit [rd True False Accepted t] connected_client
     = Some \<lparr>ws = Some True, subscriptions = [], handlers = [], is_running = True,
              reconnect_delay = 1, max_reconnect_delay = 60,
              trace = [ConnectAttempt, Slept 1, Stopped, ConnectAttempt]\<rparr>
   \<and> stop (stop c) = log Stopped (stop c)"
  by (simp add: rd_def listen_failed_def Let_def log_def new_client_def connected_client_def
        stop_def resubscribe_msgs_def split: option.splits)

lemma subs_of_update [simp]:
  "subs_of (c\<lparr>subscriptions := AList.update ch l (subscriptions c)\<rparr>) ch' = (if ch' = ch then l else subs_of c ch')"
  by (simp add: subs_of_def update_conv')

lemma subs_of_handlers [simp]: "subs_of (c\<lparr>handlers := hs\<rparr>) ch = subs_of c ch"
  by (simp add: subs_of_def)

lemma subs_of_log [simp]: "subs_of (log a c) ch = subs_of c ch"
  by (simp add: subs_of_def log_def)

lemma subscribe_open:
  assumes "ws c = Some True"
  shows "fst (subscribe ch tickers h now c) = None"
    and "trace (snd (subscribe ch tickers h now c))
         = trace c @ (if unsubscribed c ch tickers = [] then []
                      else [Subscribe now [ch] (unsubscribed c ch tickers)])"
  using assms
  by (auto simp: subscribe_def unsubscribed_def Let_def log_def subs_of_def update_conv'
           split: option.splits)

lemma subscribe_no_transport:
  assumes "ws c = None"
  shows "fst (subscribe ch tickers h now c) = None"
    and "trace (snd (subscribe ch tickers h now c)) = trace c"
  using assms
  by (auto simp: subscribe_def Let_def log_def split: option.splits)

lemma subscribe_subs:
  "subs_of (snd (subscribe ch tickers h now c)) ch = subs_of c ch @ unsubscribed c ch tickers"
  by (auto simp: subscribe_def unsubscribed_def Let_def subs_of_def update_conv' log_def
           split: option.splits)

lemma subscribe_ws: "ws (snd (subscribe ch tickers h now c)) = ws c"
  by (auto simp: subscribe_def Let_def log_def split: option.splits)

lemma subscribe_tracked:
  "map_of (subscriptions (snd (subscribe ch tickers h now c))) ch
   = Some (subs_of c ch @ unsubscribed c ch tickers)"
  by (auto simp: subscribe_def unsubscribed_def Let_def subs_of_def update_conv' log_def
           split: option.splits)

lemma resubscribe_msgs_member:
  "map_of (subscriptions c) ch = Some l \<Longrightarrow> Subscribe t [ch] l \<in> set (resubscribe_msgs t c)"
  by (force simp: resubscribe_msgs_def dest: map_of_SomeD)

lemma connect_accepted_resubscribes:
  assumes "outcome r = Accepted"
  shows "\<exists>c'. connect (r # rs) c = Some c' \<and> ws c' = Some True \<and> is_running c'
              \<and> set (resubscribe_msgs (clock r) c) \<subseteq> set (trace c')"
  using assms
  by (auto simp: Let_def resubscribe_msgs_def stop_def log_def)

lemma subscribe_then_connect:
  assumes "outcome r = Accepted"
  shows "\<exists>c'. connect (r # rs) (snd (subscribe ch tickers h now c)) = Some c'
              \<and> ws c' = Some True
              \<and> Subscribe (clock r) [ch] (subs_of c ch @ unsubscribed c ch tickers) \<in> set (trace c')"
proof -
  from connect_accepted_resubscribes [OF assms, of rs "snd (subscribe ch tickers h now c)"]
  obtain c' where c': "connect (r # rs) (snd (subscribe ch tickers h now c)) = Some c'"
    "ws c' = Some True"
    "set (resubscribe_msgs (clock r) (snd (subscribe ch tickers h now c))) \<subseteq> set (trace c')"
    by blast
  have "Subscribe (clock r) [ch] (subs_of c ch @ unsubscribed c ch tickers)
        \<in> set (resubscribe_msgs (clock r) (snd (subscribe ch tickers h now c)))"
    by (rule resubscribe_msgs_member) (rule subscribe_tracked)
  with c'(3) have "Subscribe (clock r) [ch] (subs_of c ch @ unsubscribed c ch tickers) \<in> set (trace c')"
    by blast
  with c' show ?thesis by blast
qed

text \<open>
  C7, amended. On an open transport a \<open>subscribe\<close> call puts one subscribe command on
  the wire, for the channel and exactly the requested symbols that are not yet tracked for
  it, and none when there is no such symbol; with no transport yet it sends nothing. In
  both cases the new symbols are appended to the channel's tracked list. On an open
  transport with nothing tracked for \<open>ticker\<close>, subscribing A, B and then B, C sends a
  command for A, B and one for C. A \<open>connect\<close> after the call whose handshake is
  accepted, and whose transport stays open while it resubscribes, sends a command for the
  channel with its whole tracked list, the new symbols included.
\<close>

theorem subscribe_sends_new_symbols:
  "(ws c = Some True \<longrightarrow>
      fst (subscribe ch tickers h now c) = None
      \<and> trace (snd (subscribe ch tickers h now c))
          = trace c @ (if unsubscribed c ch tickers = [] then []
                       else [Subscribe now [ch] (unsubscribed c ch tickers)]))
   \<and> (ws c = None \<longrightarrow>
      fst (subscribe ch tickers h now c) = None
      \<and> trace (snd (subscribe ch tickers h now c)) = trace c)
   \<and> subs_of (snd (subscribe ch tickers h now c)) ch = subs_of c ch @ unsubscribed c ch tickers
   \<and> (ws c = Some True \<and> subs_of c ''ticker'' = [] \<longrightarrow>
      trace (snd (subscribe ''ticker'' [''B'', ''C''] h2 n2
                   (snd (subscribe ''ticker'' [''A'', ''B''] h1 n1 c))))
      = trace c @ [Subscribe n1 [''ticker''] [''A'', ''B''], Subscribe n2 [''ticker''] [''C'']])
   \<and> (outcome r = Accepted \<longrightarrow>
      (\<exists>c'. connect (r # rs) (snd (subscribe ch tickers h now c)) = Some c'
            \<and> ws c' = Some True
            \<and> Subscribe (clock r) [ch] (subs_of c ch @ unsubscribed c ch tickers)
                \<in> set (trace c')))"
proof -
  have ex: "trace (snd (subscribe ''ticker'' [''B'', ''C''] h2 n2
                   (snd (subscribe ''ticker'' [''A'', ''B''] h1 n1 c))))
      = trace c @ [Subscribe n1 [''ticker''] [''A'', ''B''], Subscribe n2 [''ticker''] [''C'']]"
    if o: "ws c = Some True" and e: "subs_of c ''ticker'' = []"
  proof -
    let ?c1 = "snd (subscribe ''ticker'' [''A'', ''B''] h1 n1 c)"
    have u1: "unsubscribed c ''ticker'' [''A'', ''B''] = [''A'', ''B'']"
      by (simp add: unsubscribed_def e)
    have t1: "trace ?c1 = trace c @ [Subscribe n1 [''ticker''] [''A'', ''B'']]"
      using subscribe_open(2) [OF o, of "''ticker''" "[''A'', ''B'']" h1 n1] u1 by simp
    have s1: "subs_of ?c1 ''ticker'' = [''A'', ''B'']"
      using subscribe_subs [of "''ticker''" "[''A'', ''B'']" h1 n1 c] u1 e by simp
    have o1: "ws ?c1 = Some True" using o by (simp add: subscribe_ws)
    have u2: "unsubscribed ?c1 ''ticker'' [''B'', ''C''] = [''C'']"
      by (simp add: unsubscribed_def s1)
    show ?thesis
      using subscribe_open(2) [OF o1, of "''ticker''" "[''B'', ''C'']" h2 n2] u2 t1 by simp
  qed
  have re: "\<exists>c'. connect (r # rs) (snd (subscribe ch tickers h now c)) = Some c'
            \<and> ws c' = Some True
            \<and> Subscribe (clock r) [ch] (subs_of c ch @ unsubscribed c ch tickers)
                \<in> set (trace c')"
    if "outcome r = Accepted"
    using that by (rule subscribe_then_connect)
  have main: "(ws c = Some True \<longrightarrow>
      fst (subscribe ch tickers h now c) = None
      \<and> trace (snd (subscribe ch tickers h now c))
          = trace c @ (if unsubscribed c ch tickers = [] then []
                       else [Subscribe now [ch] (unsubscribed c ch tickers)]))
   \<and> (ws c = None \<longrightarrow>
      fst (subscribe ch tickers h now c) = None
      \<and> trace (snd (subscribe ch tickers h now c)) = trace c)
   \<and> subs_of (snd (subscribe ch tickers h now c)) ch = subs_of c ch @ unsubscribed c ch tickers"
    using subscribe_open [of c ch tickers h now] subscribe_no_transport [of c ch tickers h now]
      subscribe_subs [of ch tickers h now c]
    by simp
  from main ex re show ?thesis by blast
qed

theorem subscribe_sends_new_symbols_witness:
  "ws connected_client = Some True \<and> subs_of connected_client ''ticker'' = []
   \<and> unsubscribed connected_client ''ticker'' [''A'', ''B''] = [''A'', ''B'']
   \<and> trace (snd (subscribe ''ticker'' [''A'', ''B''] 0 5 connected_client))
       = [ConnectAttempt, Subscribe 5 [''ticker''] [''A'', ''B'']]
   \<and> trace (snd (subscribe ''ticker'' [''B'', ''C''] 1 6
                   (snd (subscribe ''ticker'' [''A'', ''B''] 0 5 connected_client))))
       = [ConnectAttempt, Subscribe 5 [''ticker''] [''A'', ''B''], Subscribe 6 [''ticker''] [''C'']]
   \<and> ws new_client = None
   \<and> trace (snd (subscribe ''ticker'' [''A'', ''B''] 0 5 new_client)) = []
   \<and> outcome (rd False False Accepted 9) = Accepted
   \<and> connect [rd False False Accepted 9] (snd (subscribe ''ticker'' [''A'', ''B''] 0 5 new_client))
       = Some (new_client\<lparr>ws := Some True, subscriptions := [(''ticker'', [''A'', ''B''])],
                handlers := [(''ticker'', [0])], is_running := True,
                trace := [ConnectAttempt, Subscribe 9 [''ticker''] [''A'', ''B'']]\<rparr>)
   \<and> Subscribe 9 [''ticker''] [''A'', ''B'']
       \<in> set [ConnectAttempt, Subscribe 9 [''ticker''] [''A'', ''B'']]"
proof -
  have a: "outcome (rd False False Accepted 9) = Accepted" by (simp add: rd_def)
  have cn: "connect [rd False False Accepted 9] (snd (subscribe ''ticker'' [''A'', ''B''] 0 5 new_client))
       = Some (new_client\<lparr>ws := Some True, subscriptions := [(''ticker'', [''A'', ''B''])],
                handlers := [(''ticker'', [0])], is_running := True,
                trace := [ConnectAttempt, Subscribe 9 [''ticker''] [''A'', ''B'']]\<rparr>)"
    by (simp add: rd_def new_client_def subscribe_def subs_of_def Let_def log_def
        resubscribe_msgs_def)
  have un: "unsubscribed new_client ''ticker'' [''A'', ''B''] = [''A'', ''B'']"
    "subs_of new_client ''ticker'' = []"
    by (simp_all add: unsubscribed_def subs_of_def new_client_def)
  have o: "ws connected_client = Some True" by (simp add: connected_client_def new_client_def)
  have e: "subs_of connected_client ''ticker'' = []"
    by (simp add: connected_client_def new_client_def subs_of_def)
  have u: "unsubscribed connected_client ''ticker'' [''A'', ''B''] = [''A'', ''B'']"
    by (simp add: unsubscribed_def e)
  have tr: "trace connected_client = [ConnectAttempt]" by (simp add: connected_client_def)
  have n: "ws new_client = None" "trace new_client = []" by (simp_all add: new_client_def)
  from subscribe_sends_new_symbols
    [of new_client "''ticker''" "[''A'', ''B'']" 0 5 1 6 0 5 "rd False False Accepted 9" "[]"] a
  have "\<exists>c'. connect [rd False False Accepted 9]
               (snd (subscribe ''ticker'' [''A'', ''B''] 0 5 new_client)) = Some c'
            \<and> ws c' = Some True
            \<and> Subscribe (clock (rd False False Accepted 9)) [''ticker'']
                  (subs_of new_client ''ticker'' @ unsubscribed new_client ''ticker'' [''A'', ''B''])
                \<in> set (trace c')"
    by blast
  then have sent: "Subscribe 9 [''ticker''] [''A'', ''B'']
       \<in> set [ConnectAttempt, Subscribe 9 [''ticker''] [''A'', ''B'']]"
    unfolding cn un by (simp add: rd_def)
  from subscribe_sends_new_symbols
    [of connected_client "''ticker''" "[''A'', ''B'']" 0 5 1 6 0 5 "rd False False Accepted 9" "[]"]
    subscribe_sends_new_symbols
    [of new_client "''ticker''" "[''A'', ''B'']" 0 5 1 6 0 5 "rd False False Accepted 9" "[]"]
    o e u tr n a cn sent
  show ?thesis by simp
qed

text \<open>
  C7, as stated, fails before the first connection: A and B are new for the channel, the
  call records them, and no command is sent.
\<close>

theorem subscribe_without_transport_sends_nothing:
  "unsubscribed new_client ''ticker'' [''A'', ''B''] = [''A'', ''B'']
   \<and> subscribe ''ticker'' [''A'', ''B''] 0 5 new_client
       = (None, new_client\<lparr>subscriptions := [(''ticker'', [''A'', ''B''])],
                             handlers := [(''ticker'', [0])]\<rparr>)
   \<and> trace (snd (subscribe ''ticker'' [''A'', ''B''] 0 5 new_client)) = []"
  by (simp add: unsubscribed_def subs_of_def new_client_def subscribe_def Let_def)

section \<open>Alert throttling\<close>

lemma throttle_inv_fire:
  assumes "throttle_inv b" and "gate_open (last_alert b) k now"
  shows "throttle_inv (fire k now b)"
proof -
  have cd: "alert_cooldown > 0" by (simp add: alert_cooldown_def)
  have old: "fst a \<noteq> k \<or> now - snd a > alert_cooldown" if "a \<in> set (alerts b)" for a
  proof (cases "fst a = k")
    case True
    with assms(1) that obtain t where t: "last_alert b k = Some t" "snd a \<le> t"
      by (auto simp: throttle_inv_def)
    with assms(2) have "now - t > alert_cooldown" by (simp add: gate_open_def)
    with t show ?thesis by simp
  next
    case False
    then show ?thesis by simp
  qed
  then have "spaced (alerts (fire k now b))"
    using assms(1) by (auto simp: throttle_inv_def spaced_def fire_def sorted_wrt_append)
  moreover have "\<exists>t. last_alert (fire k now b) (fst a) = Some t \<and> snd a \<le> t"
    if "a \<in> set (alerts (fire k now b))" for a
  proof (cases "fst a = k")
    case True
    from that have "a = (k, now) \<or> a \<in> set (alerts b)" by (auto simp: fire_def)
    then have "snd a \<le> now"
    proof
      assume "a = (k, now)" then show ?thesis by simp
    next
      assume "a \<in> set (alerts b)"
      from old [OF this] True cd show ?thesis by simp
    qed
    with True show ?thesis by (simp add: fire_def)
  next
    case False
    with that have "a \<in> set (alerts b)" by (auto simp: fire_def)
    with assms(1) False show ?thesis by (auto simp: throttle_inv_def fire_def)
  qed
  ultimately show ?thesis by (simp add: throttle_inv_def)
qed

lemma throttle_inv_check: "throttle_inv b \<Longrightarrow> throttle_inv (check_arbitrage am ae st now tk b)"
  by (auto simp: check_arbitrage_def Let_def throttle_inv_fire split: option.splits prod.splits)

lemma throttle_inv_run: "throttle_inv b \<Longrightarrow> throttle_inv (run_checks am ae calls b)"
  unfolding run_checks_def
  by (induction calls arbitrary: b) (simp_all add: throttle_inv_check)


lemma check_fires:
  assumes "k \<noteq> []" and "get_market_summary st k = Some ms" and "am ms = Some opp"
    and "gate_open (last_alert b) k now"
  shows "(k, now) \<in> set (alerts (check_arbitrage am ae st now (Some k) b))
       \<and> last_alert (check_arbitrage am ae st now (Some k) b) k = Some now"
  using assms
  by (auto simp: check_arbitrage_def Let_def fire_def split: option.splits prod.splits)

lemma fire_records:
  "last_alert (fire key now b) k = last_alert b k
   \<or> (k, now) \<in> set (alerts (fire key now b)) \<and> last_alert (fire key now b) k = Some now"
  by (simp add: fire_def)

lemma fire_keeps_alerts: "a \<in> set (alerts b) \<Longrightarrow> a \<in> set (alerts (fire key now b))"
  by (simp add: fire_def)

lemma check_records:
  "last_alert (check_arbitrage am ae st now tk b) k = last_alert b k
   \<or> (k, now) \<in> set (alerts (check_arbitrage am ae st now tk b))
     \<and> last_alert (check_arbitrage am ae st now tk b) k = Some now"
  using fire_records [of _ now b k] fire_records [of _ now "fire _ now b" k]
  by (auto simp: check_arbitrage_def Let_def fire_def split: option.splits prod.splits)

text \<open>
  C6, amended. From a bot that has printed no alert, any two alerts of a run under the
  same key (a symbol, or \<open>event:\<close> and an event key) have clock readings more than 30
  seconds apart. The condition of the gate holds for a key without a stored time, and for
  a key with one exactly when more than 30 seconds have passed since; a call for a symbol
  with a summary and an opportunity then prints the alert and stores the time. A call
  changes the stored time of a key only by printing an alert for it.
\<close>

theorem alerts_throttled:
  "(alerts b = [] \<longrightarrow>
      (\<forall>i j. i < j \<and> j < length (alerts (run_checks am ae calls b))
             \<and> fst (alerts (run_checks am ae calls b) ! i) = fst (alerts (run_checks am ae calls b) ! j)
         \<longrightarrow> snd (alerts (run_checks am ae calls b) ! j) - snd (alerts (run_checks am ae calls b) ! i) > 30))
   \<and> (last_alert b k = Some t0 \<longrightarrow> gate_open (last_alert b) k now = (now - t0 > 30))
   \<and> (last_alert b k = None \<longrightarrow> gate_open (last_alert b) k now)
   \<and> (k \<noteq> [] \<and> get_market_summary st k = Some ms \<and> am ms = Some opp
        \<and> last_alert b k = Some t0 \<and> now - t0 > 30 \<longrightarrow>
        (k, now) \<in> set (alerts (check_arbitrage am ae st now (Some k) b))
        \<and> last_alert (check_arbitrage am ae st now (Some k) b) k = Some now)
   \<and> (last_alert (check_arbitrage am ae st now tk b) k = last_alert b k
        \<or> (k, now) \<in> set (alerts (check_arbitrage am ae st now tk b))
          \<and> last_alert (check_arbitrage am ae st now tk b) k = Some now)"
proof -
  have sp: "snd (alerts (run_checks am ae calls b) ! j) - snd (alerts (run_checks am ae calls b) ! i) > 30"
    if "alerts b = []" "i < j" "j < length (alerts (run_checks am ae calls b))"
      "fst (alerts (run_checks am ae calls b) ! i) = fst (alerts (run_checks am ae calls b) ! j)"
    for i j
  proof -
    from that(1) have "throttle_inv b" by (simp add: throttle_inv_def spaced_def)
    then have "throttle_inv (run_checks am ae calls b)" by (rule throttle_inv_run)
    then have "spaced (alerts (run_checks am ae calls b))" by (simp add: throttle_inv_def)
    with that(2-4) show ?thesis
      by (auto simp: spaced_def sorted_wrt_iff_nth_less alert_cooldown_def)
  qed
  have g1: "gate_open (last_alert b) k now = (now - t0 > 30)" if "last_alert b k = Some t0"
    using that by (simp add: gate_open_def alert_cooldown_def)
  have g2: "gate_open (last_alert b) k now" if "last_alert b k = None"
    using that by (simp add: gate_open_def)
  have f: "(k, now) \<in> set (alerts (check_arbitrage am ae st now (Some k) b))
        \<and> last_alert (check_arbitrage am ae st now (Some k) b) k = Some now"
    if "k \<noteq> []" "get_market_summary st k = Some ms" "am ms = Some opp"
      "last_alert b k = Some t0" "now - t0 > 30"
    using that g1 [OF that(4)] check_fires [of k st ms am opp b now ae] by simp
  have q: "last_alert (check_arbitrage am ae st now tk b) k = last_alert b k
        \<or> (k, now) \<in> set (alerts (check_arbitrage am ae st now tk b))
          \<and> last_alert (check_arbitrage am ae st now tk b) k = Some now"
    by (rule check_records)
  from sp g1 g2 f q show ?thesis by blast
qed


text \<open>
  C6, as stated, fails: with an analyser that finds nothing, the condition of the gate
  holds for \<open>MKT\<close> at time 0 and again at time 1.
\<close>

theorem gate_open_twice_in_window:
  "get_market_summary quoted_store ''MKT'' \<noteq> None
   \<and> gate_open (last_alert (new_bot [])) ''MKT'' 0
   \<and> gate_open (last_alert (check_arbitrage never never_event quoted_store 0 (Some ''MKT'') (new_bot [])))
        ''MKT'' 1
   \<and> (1 :: real) - 0 \<le> alert_cooldown"
  by (simp add: quoted_store_def market_store_def sync_market_def empty_store_def Let_def
      get_market_summary_def check_arbitrage_def gate_open_def new_bot_def never_def never_event_def
      alert_cooldown_def)

theorem alerts_throttled_witness:
  "alerts (new_bot []) = []
   \<and> alerts (run_checks always never_event
        [(quoted_store, 0, Some ''MKT''), (quoted_store, 10, Some ''MKT''),
         (quoted_store, 31, Some ''MKT'')] (new_bot []))
       = [(''MKT'', 0), (''MKT'', 31)]
   \<and> (0 :: nat) < 1 \<and> (1 :: nat) < length [(''MKT'', 0 :: real), (''MKT'', 31)]
   \<and> snd ([(''MKT'', 0 :: real), (''MKT'', 31)] ! 1) - snd ([(''MKT'', 0 :: real), (''MKT'', 31)] ! 0) > 30"
proof -
  have a: "alerts (new_bot []) = []" by (simp add: new_bot_def)
  have s: "get_market_summary quoted_store ''MKT'' \<noteq> None"
    by (simp add: quoted_store_def market_store_def sync_market_def empty_store_def Let_def
      get_market_summary_def)
  then obtain ms where ms: "get_market_summary quoted_store ''MKT'' = Some ms" by blast
  have r: "alerts (run_checks always never_event
        [(quoted_store, 0, Some ''MKT''), (quoted_store, 10, Some ''MKT''),
         (quoted_store, 31, Some ''MKT'')] (new_bot []))
       = [(''MKT'', 0), (''MKT'', 31)]"
    by (simp add: run_checks_def check_arbitrage_def ms gate_open_def new_bot_def always_def
        never_event_def fire_def alert_cooldown_def Let_def)
  from alerts_throttled [of "new_bot []" always never_event
        "[(quoted_store, 0, Some ''MKT''), (quoted_store, 10, Some ''MKT''),
         (quoted_store, 31, Some ''MKT'')]" "''MKT''" 0 0 quoted_store "[]" "()"] a
  have "\<forall>i j. i < j \<and> j < length [(''MKT'', 0 :: real), (''MKT'', 31)]
             \<and> fst ([(''MKT'', 0 :: real), (''MKT'', 31)] ! i) = fst ([(''MKT'', 0 :: real), (''MKT'', 31)] ! j)
         \<longrightarrow> snd ([(''MKT'', 0 :: real), (''MKT'', 31)] ! j) - snd ([(''MKT'', 0 :: real), (''MKT'', 31)] ! i) > 30"
    unfolding r by blast
  from this [rule_format, of 0 1]
  have "snd ([(''MKT'', 0 :: real), (''MKT'', 31)] ! 1) - snd ([(''MKT'', 0 :: real), (''MKT'', 31)] ! 0) > 30"
    by simp
  with a r show ?thesis by simp
qed

end
